theory Spec2Isabelle
  imports Complex_Main "HOL-Library.Word"
begin

section \<open>JavaScript values used by \<^verbatim>\<open>src/ffmpeg.ts\<close>\<close>

subsection \<open>Strings\<close>

text \<open>
  A JavaScript string is a sequence of UTF-16 code units; \<^verbatim>\<open>length\<close>, \<^verbatim>\<open>slice\<close> and a regular
  expression without the \<^verbatim>\<open>u\<close> flag all count code units.  \<open>js\<close> turns an ASCII literal
  into such a string.
\<close>

type_synonym code_unit = "16 word"
type_synonym jsstring = "code_unit list"

definition js :: "string \<Rightarrow> jsstring" where
  "js s = map (\<lambda>c. of_nat (of_char c)) s"

text \<open>
  \<^verbatim>\<open>s.slice(start)\<close>: a negative start counts from the end and is clamped at 0, a start beyond
  the end gives the empty string.
\<close>

definition slice_str :: "jsstring \<Rightarrow> int \<Rightarrow> jsstring" where
  "slice_str s start =
     (let len = int (length s);
          from = (if start < 0 then max (len + start) 0 else min start len)
      in drop (nat from) s)"

subsection \<open>Numbers\<close>

text \<open>
  A JavaScript number is \<^verbatim>\<open>NaN\<close> or a numeric value.  Finite doubles are idealised as the
  reals they stand for: rounding and overflow to \<^verbatim>\<open>Infinity\<close> are not modelled.  \<^verbatim>\<open>null\<close> is
  \<open>None\<close> of an option type.
\<close>

datatype jsnum = NaN | Num real

fun isNaN :: "jsnum \<Rightarrow> bool" where
  "isNaN NaN = True"
| "isNaN (Num _) = False"

fun num_add :: "jsnum \<Rightarrow> jsnum \<Rightarrow> jsnum" where
  "num_add (Num a) (Num b) = Num (a + b)"
| "num_add _ _ = NaN"

fun num_mul :: "jsnum \<Rightarrow> jsnum \<Rightarrow> jsnum" where
  "num_mul (Num a) (Num b) = Num (a * b)"
| "num_mul _ _ = NaN"

text \<open>
  \<^verbatim>\<open>a / b\<close>.  With \<open>b = 0\<close> JavaScript gives an infinity or \<^verbatim>\<open>NaN\<close>; the only division of
  the source is guarded by \<^verbatim>\<open>duration > 0\<close>, and the model answers \<open>NaN\<close> there.
\<close>

fun num_div :: "jsnum \<Rightarrow> jsnum \<Rightarrow> jsnum" where
  "num_div (Num a) (Num b) = (if b = 0 then NaN else Num (a / b))"
| "num_div _ _ = NaN"

text \<open>\<^verbatim>\<open>a > b\<close>: false as soon as one side is \<^verbatim>\<open>NaN\<close>.\<close>

fun num_gt :: "jsnum \<Rightarrow> jsnum \<Rightarrow> bool" where
  "num_gt (Num a) (Num b) = (a > b)"
| "num_gt _ _ = False"

subsection \<open>Character classes\<close>

definition is_digit :: "code_unit \<Rightarrow> bool" where
  "is_digit c = (0x30 \<le> c \<and> c \<le> 0x39)"

text \<open>\<^verbatim>\<open>\s\<close>, which is also the white space that \<^verbatim>\<open>parseInt\<close> and \<^verbatim>\<open>parseFloat\<close> skip.\<close>

definition is_space :: "code_unit \<Rightarrow> bool" where
  "is_space c =
     (c = 0x09 \<or> c = 0x0A \<or> c = 0x0B \<or> c = 0x0C \<or> c = 0x0D \<or> c = 0x20 \<or> c = 0xA0
      \<or> c = 0x1680 \<or> (0x2000 \<le> c \<and> c \<le> 0x200A) \<or> c = 0x2028 \<or> c = 0x2029
      \<or> c = 0x202F \<or> c = 0x205F \<or> c = 0x3000 \<or> c = 0xFEFF)"

definition digit_val :: "code_unit \<Rightarrow> nat" where
  "digit_val c = unat c - 48"

definition digits_val :: "jsstring \<Rightarrow> nat" where
  "digits_val ds = foldl (\<lambda>a d. 10 * a + digit_val d) 0 ds"

subsection \<open>\<^verbatim>\<open>parseInt(s, 10)\<close> and \<^verbatim>\<open>parseFloat(s)\<close>\<close>

text \<open>
  Both skip leading white space, read an optional sign and then the longest prefix that is
  a numeral, ignoring what follows; with no numeral there the result is \<^verbatim>\<open>NaN\<close>.  An
  \<^verbatim>\<open>undefined\<close> argument (\<open>None\<close>: a capture group that took no part in the match) is
  converted to the text \<^verbatim>\<open>undefined\<close> first, which has no numeral.
\<close>

definition read_sign :: "jsstring \<Rightarrow> real \<times> jsstring" where
  "read_sign s =
     (case s of
        [] \<Rightarrow> (1, [])
      | c # t \<Rightarrow> if c = 0x2D then (- 1, t) else if c = 0x2B then (1, t) else (1, s))"

definition parseInt :: "jsstring option \<Rightarrow> jsnum" where
  "parseInt arg =
     (case arg of
        None \<Rightarrow> NaN
      | Some s \<Rightarrow>
          (let (sgn, t) = read_sign (dropWhile is_space s);
               ds = takeWhile is_digit t
           in if ds = [] then NaN else Num (sgn * real (digits_val ds))))"

text \<open>
  \<^verbatim>\<open>parseFloat\<close> reads digits, then optionally a dot and more digits; one of the two digit
  runs must be non-empty.  Exponents and the word \<^verbatim>\<open>Infinity\<close> are not modelled: the
  arguments here are captures made of digits and dots only.
\<close>

definition parseFloat :: "jsstring option \<Rightarrow> jsnum" where
  "parseFloat arg =
     (case arg of
        None \<Rightarrow> NaN
      | Some s \<Rightarrow>
          (let (sgn, t) = read_sign (dropWhile is_space s);
               ip = takeWhile is_digit t;
               r = dropWhile is_digit t;
               fp = (case r of [] \<Rightarrow> [] | c # r' \<Rightarrow> if c = 0x2E then takeWhile is_digit r' else [])
           in if ip = [] \<and> fp = [] then NaN
              else Num (sgn * (real (digits_val ip) + real (digits_val fp) / 10 ^ length fp))))"

section \<open>Regular expressions\<close>

text \<open>
  The fragment of JavaScript regular expressions that the eight patterns of
  \<^verbatim>\<open>onStderrData\<close> use: literal text, the classes \<^verbatim>\<open>\d\<close>, \<^verbatim>\<open>\s\<close> and \<^verbatim>\<open>[\d.]\<close>, greedy
  \<^verbatim>\<open>*\<close> and \<^verbatim>\<open>+\<close> on a class, greedy \<^verbatim>\<open>?\<close>, numbered capture groups and concatenation.
\<close>

datatype cls = Digit | Space | DigitDot

fun in_cls :: "cls \<Rightarrow> code_unit \<Rightarrow> bool" where
  "in_cls Digit c = is_digit c"
| "in_cls Space c = is_space c"
| "in_cls DigitDot c = (is_digit c \<or> c = 0x2E)"

datatype regex =
    Lit jsstring
  | Star cls
  | Plus cls
  | Opt regex
  | Group nat regex
  | Seq regex regex

type_synonym captures = "nat \<rightharpoonup> jsstring"

text \<open>
  Backtracking as a list of successes: \<open>rmatch r (inp, caps)\<close> lists every way \<open>r\<close> can
  match a prefix of \<open>inp\<close>, as the rest of the input and the captures, in the order in
  which the backtracking matcher tries them (a greedy quantifier tries the longest run
  first).  The first entry that lets the rest of the pattern match is the match.
\<close>

fun rmatch :: "regex \<Rightarrow> jsstring \<times> captures \<Rightarrow> (jsstring \<times> captures) list" where
  "rmatch (Lit l) (inp, caps) =
     (if take (length l) inp = l then [(drop (length l) inp, caps)] else [])"
| "rmatch (Star k) (inp, caps) =
     map (\<lambda>n. (drop n inp, caps)) (rev [0 ..< Suc (length (takeWhile (in_cls k) inp))])"
| "rmatch (Plus k) (inp, caps) =
     map (\<lambda>n. (drop n inp, caps)) (rev [1 ..< Suc (length (takeWhile (in_cls k) inp))])"
| "rmatch (Opt r) (inp, caps) = rmatch r (inp, caps) @ [(inp, caps)]"
| "rmatch (Group i r) (inp, caps) =
     map (\<lambda>(rest, caps'). (rest, caps'(i \<mapsto> take (length inp - length rest) inp)))
       (rmatch r (inp, caps))"
| "rmatch (Seq a b) (inp, caps) = concat (map (rmatch b) (rmatch a (inp, caps)))"

text \<open>
  \<^verbatim>\<open>data.match(re)\<close> for a pattern without the \<^verbatim>\<open>g\<close> flag: the leftmost match, or \<^verbatim>\<open>null\<close>.
  Index 0 of the result is the matched text, index \<open>i\<close> the text of group \<open>i\<close>.  The match
  is tried at the start of the text, then one code unit further, up to the end.
\<close>

definition match_at :: "regex \<Rightarrow> jsstring \<Rightarrow> captures option" where
  "match_at re inp =
     (case rmatch re (inp, Map.empty) of
        [] \<Rightarrow> None
      | (rest, caps) # _ \<Rightarrow> Some (caps(0 \<mapsto> take (length inp - length rest) inp)))"

fun str_match :: "jsstring \<Rightarrow> regex \<Rightarrow> captures option" where
  "str_match [] re = match_at re []"
| "str_match (x # xs) re =
     (case match_at re (x # xs) of Some m \<Rightarrow> Some m | None \<Rightarrow> str_match xs re)"

text \<open>The numbers of the capture groups of a pattern.\<close>

fun groups :: "regex \<Rightarrow> nat set" where
  "groups (Lit _) = {}"
| "groups (Star _) = {}"
| "groups (Plus _) = {}"
| "groups (Opt r) = groups r"
| "groups (Group i r) = insert i (groups r)"
| "groups (Seq a b) = groups a \<union> groups b"

text \<open>The patterns, in the order of the source.\<close>

definition hms :: regex where
  \<comment> \<open>\<^verbatim>\<open>(\d+):(\d+):(\d+(\.\d+)?)\<close>\<close>
  "hms =
     Seq (Group 1 (Plus Digit)) (Seq (Lit (js '':''))
    (Seq (Group 2 (Plus Digit)) (Seq (Lit (js '':''))
         (Group 3 (Seq (Plus Digit) (Opt (Group 4 (Seq (Lit (js ''.'')) (Plus Digit)))))))))"

definition re_duration :: regex where
  \<comment> \<open>\<^verbatim>\<open>/Duration: (\d+):(\d+):(\d+(\.\d+)?)/\<close>\<close>
  "re_duration = Seq (Lit (js ''Duration: '')) hms"

definition re_frame :: regex where
  \<comment> \<open>\<^verbatim>\<open>/frame=\s*(\d+)\s*fps=/\<close>\<close>
  "re_frame =
     Seq (Lit (js ''frame='')) (Seq (Star Space) (Seq (Group 1 (Plus Digit))
    (Seq (Star Space) (Lit (js ''fps='')))))"

definition re_fps :: regex where
  \<comment> \<open>\<^verbatim>\<open>/fps=\s*([\d\.]+)\s*q=/\<close>\<close>
  "re_fps =
     Seq (Lit (js ''fps='')) (Seq (Star Space) (Seq (Group 1 (Plus DigitDot))
    (Seq (Star Space) (Lit (js ''q='')))))"

definition re_q :: regex where
  \<comment> \<open>\<^verbatim>\<open>/q=\s*([\d\.]+)/\<close>\<close>
  "re_q = Seq (Lit (js ''q='')) (Seq (Star Space) (Group 1 (Plus DigitDot)))"

definition re_size :: regex where
  \<comment> \<open>\<^verbatim>\<open>/size=\s*([\d.]+)kB/\<close>\<close>
  "re_size =
     Seq (Lit (js ''size='')) (Seq (Star Space) (Seq (Group 1 (Plus DigitDot)) (Lit (js ''kB''))))"

definition re_time :: regex where
  \<comment> \<open>\<^verbatim>\<open>/time=(\d+):(\d+):(\d+(\.\d+)?)/\<close>\<close>
  "re_time = Seq (Lit (js ''time='')) hms"

definition re_bitrate :: regex where
  \<comment> \<open>\<^verbatim>\<open>/bitrate=\s*([\d.]+)kbits?\/s/\<close>\<close>
  "re_bitrate =
     Seq (Lit (js ''bitrate='')) (Seq (Star Space) (Seq (Group 1 (Plus DigitDot))
    (Seq (Lit (js ''kbit'')) (Seq (Opt (Lit (js ''s''))) (Lit (js ''/s''))))))"

definition re_speed :: regex where
  \<comment> \<open>\<^verbatim>\<open>/speed=\s*([\d\.]+)x/\<close>\<close>
  "re_speed =
     Seq (Lit (js ''speed='')) (Seq (Star Space) (Seq (Group 1 (Plus DigitDot)) (Lit (js ''x''))))"

section \<open>The class \<^verbatim>\<open>FFMPEG\<close>\<close>

subsection \<open>Types\<close>

record FFMPEGProgress =
  duration :: "jsnum option"
  percent :: "jsnum option"
  frame :: "jsnum option"
  fps :: "jsnum option"
  quality :: "jsnum option"
  sizeKB :: "jsnum option"
  timeInSeconds :: "jsnum option"
  bitrateKbps :: "jsnum option"
  speed :: "jsnum option"

record FFMPEGSpawnErr =
  code :: int
  message :: jsstring

text \<open>\<^verbatim>\<open>Result<void, FFMPEGSpawnErr>\<close> of neverthrow.\<close>

datatype ('a, 'e) Result = Ok 'a | Err 'e

type_synonym start_result = "(unit, FFMPEGSpawnErr) Result"

text \<open>\<^verbatim>\<open>FFMPEGEvents\<close>: what \<^verbatim>\<open>_emit\<close> hands to the subscribers.\<close>

datatype FFMPEGEvents = Stdout jsstring | Stderr jsstring | Progress FFMPEGProgress

type_synonym child_id = nat
type_synonym signal = string

text \<open>
  What the runtime keeps for a child that \<^verbatim>\<open>start\<close> has spawned: whether the two \<^verbatim>\<open>once\<close>
  listeners that \<^verbatim>\<open>start\<close> registered on it are still registered (each is removed when it
  fires), and the state of the promise that this call of \<^verbatim>\<open>start\<close> returned and that the two
  listeners settle (\<open>None\<close>: pending).  The \<^verbatim>\<open>data\<close> listeners on the two streams of a child
  stay registered for good.
\<close>

record child_state =
  close_listener :: bool
  error_listener :: bool
  promise :: "start_result option"

text \<open>
  The fields of an instance, followed by the part of the runtime that the methods act on:
  the events emitted so far, the \<^verbatim>\<open>kill\<close> calls made so far, and every child spawned so far.
  A child is named by its position in \<open>children\<close>, so each \<^verbatim>\<open>spawn\<close> gives a new one and the
  children of earlier runs keep their listeners.  Subscribers are outside the class: what
  they do when an event reaches them is not modelled.
\<close>

record FFMPEG =
  args :: "jsstring list"
  execPath :: jsstring
  child :: "child_id option"
  lastStderr :: jsstring
  progress :: FFMPEGProgress
  killed :: bool
  emitted :: "FFMPEGEvents list"
  kill_calls :: "(child_id \<times> signal option) list"
  children :: "child_state list"

definition MAX_STDERR_LENGTH :: nat where
  "MAX_STDERR_LENGTH = 32000"

definition EmptyProgress :: FFMPEGProgress where
  "EmptyProgress =
     \<lparr>duration = None, percent = None, frame = None, fps = None, quality = None,
      sizeKB = None, timeInSeconds = None, bitrateKbps = None, speed = None\<rparr>"

definition processing :: "FFMPEG \<Rightarrow> bool" where
  "processing s = (child s \<noteq> None)"

definition new_FFMPEG :: "jsstring list \<Rightarrow> jsstring option \<Rightarrow> FFMPEG" where
  "new_FFMPEG a ep =
     \<lparr>args = a, execPath = (case ep of Some p \<Rightarrow> p | None \<Rightarrow> js ''ffmpeg''),
      child = None, lastStderr = [], progress = EmptyProgress, killed = False,
      emitted = [], kill_calls = [], children = []\<rparr>"

text \<open>The promise that \<^verbatim>\<open>start\<close> returned when it spawned child \<open>c\<close>.\<close>

definition promise_of :: "child_id \<Rightarrow> FFMPEG \<Rightarrow> start_result option" where
  "promise_of c s = (if c < length (children s) then promise (children s ! c) else None)"

definition emit :: "FFMPEGEvents \<Rightarrow> FFMPEG \<Rightarrow> FFMPEG" where
  "emit e s = s\<lparr>emitted := emitted s @ [e]\<rparr>"

subsection \<open>\<^verbatim>\<open>onStderrData\<close>\<close>

text \<open>
  The three captures of an hours:minutes:seconds match as seconds, or \<open>None\<close> when the
  \<^verbatim>\<open>isNaN\<close> guard rejects them (the same lines serve the duration and the elapsed time).
\<close>

definition hms_seconds :: "captures \<Rightarrow> jsnum option" where
  "hms_seconds m =
     (let hours = parseInt (m 1); minutes = parseInt (m 2); seconds = parseFloat (m 3)
      in if \<not> isNaN hours \<and> \<not> isNaN minutes \<and> \<not> isNaN seconds
         then Some (num_add (num_add (num_mul hours (Num 3600)) (num_mul minutes (Num 60))) seconds)
         else None)"

definition extract_duration :: "jsstring \<Rightarrow> FFMPEGProgress \<Rightarrow> FFMPEGProgress" where
  "extract_duration data p =
     (if duration p = None then
        (case str_match data re_duration of
           None \<Rightarrow> p
         | Some durMatch \<Rightarrow>
             (case hms_seconds durMatch of None \<Rightarrow> p | Some d \<Rightarrow> p\<lparr>duration := Some d\<rparr>))
      else p)"

definition track_frame :: "jsstring \<Rightarrow> FFMPEGProgress \<Rightarrow> FFMPEGProgress" where
  "track_frame data p =
     (case str_match data re_frame of
        None \<Rightarrow> p
      | Some frameMatch \<Rightarrow> p\<lparr>frame := Some (parseInt (frameMatch 1))\<rparr>)"

definition track_fps :: "jsstring \<Rightarrow> FFMPEGProgress \<Rightarrow> FFMPEGProgress" where
  "track_fps data p =
     (case str_match data re_fps of
        None \<Rightarrow> p
      | Some fpsMatch \<Rightarrow> p\<lparr>fps := Some (parseFloat (fpsMatch 1))\<rparr>)"

definition track_quality :: "jsstring \<Rightarrow> FFMPEGProgress \<Rightarrow> FFMPEGProgress" where
  "track_quality data p =
     (case str_match data re_q of
        None \<Rightarrow> p
      | Some qMatch \<Rightarrow> p\<lparr>quality := Some (parseFloat (qMatch 1))\<rparr>)"

definition track_size :: "jsstring \<Rightarrow> FFMPEGProgress \<Rightarrow> FFMPEGProgress" where
  "track_size data p =
     (case str_match data re_size of
        None \<Rightarrow> p
      | Some sizeMatch \<Rightarrow> p\<lparr>sizeKB := Some (parseFloat (sizeMatch 1))\<rparr>)"

definition duration_positive :: "FFMPEGProgress \<Rightarrow> bool" where
  \<comment> \<open>\<^verbatim>\<open>this._progress.duration > 0\<close>; \<^verbatim>\<open>null > 0\<close> is false\<close>
  "duration_positive p = (case duration p of None \<Rightarrow> False | Some d \<Rightarrow> num_gt d (Num 0))"

definition track_time :: "jsstring \<Rightarrow> FFMPEGProgress \<Rightarrow> FFMPEGProgress" where
  "track_time data p =
     (case str_match data re_time of
        None \<Rightarrow> p
      | Some timeMatch \<Rightarrow>
          (case hms_seconds timeMatch of
             None \<Rightarrow> p
           | Some t \<Rightarrow>
               (let p1 = p\<lparr>timeInSeconds := Some t\<rparr>
                in if duration_positive p1
                   then p1\<lparr>percent :=
                          Some (num_mul (num_div t (the (duration p1))) (Num 100))\<rparr>
                   else p1)))"

definition track_bitrate :: "jsstring \<Rightarrow> FFMPEGProgress \<Rightarrow> FFMPEGProgress" where
  "track_bitrate data p =
     (case str_match data re_bitrate of
        None \<Rightarrow> p
      | Some bitrateMatch \<Rightarrow> p\<lparr>bitrateKbps := Some (parseFloat (bitrateMatch 1))\<rparr>)"

definition track_speed :: "jsstring \<Rightarrow> FFMPEGProgress \<Rightarrow> FFMPEGProgress" where
  "track_speed data p =
     (case str_match data re_speed of
        None \<Rightarrow> p
      | Some speedMatch \<Rightarrow> p\<lparr>speed := Some (parseFloat (speedMatch 1))\<rparr>)"

text \<open>The second \<^verbatim>\<open>if\<close> of \<^verbatim>\<open>onStderrData\<close>: the seven fields in the order of the source.\<close>

definition track_progress :: "jsstring \<Rightarrow> FFMPEGProgress \<Rightarrow> FFMPEGProgress" where
  "track_progress data p =
     track_speed data (track_bitrate data (track_time data (track_size data
       (track_quality data (track_fps data (track_frame data p))))))"

definition onStderrData :: "jsstring \<Rightarrow> FFMPEG \<Rightarrow> FFMPEG" where
  "onStderrData data s =
     (let s1 = s\<lparr>progress := extract_duration data (progress s)\<rparr>
      in if duration (progress s1) \<noteq> None
         then (let s2 = s1\<lparr>progress := track_progress data (progress s1)\<rparr>
               in emit (Progress (progress s2)) s2)
         else s1)"

subsection \<open>\<^verbatim>\<open>start\<close> and the listeners it registers\<close>

text \<open>
  What \<^verbatim>\<open>spawn\<close> does is the runtime's choice: it throws (the argument is \<^verbatim>\<open>String(e)\<close>) or
  it returns a new child.
\<close>

datatype spawn_outcome = SpawnThrows jsstring | Spawned

text \<open>
  \<^verbatim>\<open>start\<close> runs up to the \<^verbatim>\<open>return\<close> of the promise.  The first component is \<open>Some r\<close>
  when the call's own promise is settled with \<open>r\<close> on return, and \<open>None\<close> when it is the
  pending promise of the child that the call has spawned, which is the child at position
  \<open>length (children s)\<close>.
\<close>

definition start :: "spawn_outcome \<Rightarrow> FFMPEG \<Rightarrow> start_result option \<times> FFMPEG" where
  "start sp s =
     (if processing s
      then (Some (Err \<lparr>code = - 1, message = js ''FFMPEG process already started''\<rparr>), s)
      else
        (let s1 = s\<lparr>lastStderr := [], progress := EmptyProgress\<rparr>
         in case sp of
              SpawnThrows e \<Rightarrow> (Some (Err \<lparr>code = - 1, message = e\<rparr>), s1)
            | Spawned \<Rightarrow>
                (None, s1\<lparr>child := Some (length (children s1)),
                          children := children s1 @
                            [\<lparr>close_listener = True, error_listener = True, promise = None\<rparr>]\<rparr>)))"

text \<open>Settling a promise a second time has no effect.\<close>

definition resolve :: "start_result \<Rightarrow> child_state \<Rightarrow> child_state" where
  "resolve r l = (case promise l of None \<Rightarrow> l\<lparr>promise := Some r\<rparr> | Some _ \<Rightarrow> l)"

definition update_child :: "child_id \<Rightarrow> (child_state \<Rightarrow> child_state) \<Rightarrow> FFMPEG \<Rightarrow> FFMPEG" where
  "update_child c f s = s\<lparr>children := (children s)[c := f (children s ! c)]\<rparr>"

definition on_stdout :: "jsstring \<Rightarrow> FFMPEG \<Rightarrow> FFMPEG" where
  "on_stdout data s = emit (Stdout data) s"

text \<open>
  The listener on the diagnostic channel: emit the chunk, add it to the buffer and cut the
  buffer to its last \<open>MAX_STDERR_LENGTH\<close> code units, then parse the chunk.
\<close>

definition buffer_stderr :: "jsstring \<Rightarrow> FFMPEG \<Rightarrow> FFMPEG" where
  "buffer_stderr data s =
     (let s1 = s\<lparr>lastStderr := lastStderr s @ data\<rparr>
      in if length (lastStderr s1) > MAX_STDERR_LENGTH
         then s1\<lparr>lastStderr := slice_str (lastStderr s1) (- int MAX_STDERR_LENGTH)\<rparr>
         else s1)"

definition on_stderr :: "jsstring \<Rightarrow> FFMPEG \<Rightarrow> FFMPEG" where
  "on_stderr data s = onStderrData data (buffer_stderr data (emit (Stderr data) s))"

text \<open>
  The two \<^verbatim>\<open>once\<close> listeners that \<^verbatim>\<open>start\<close> registered on child \<open>c\<close>.  Both clear the handle
  of the instance, whichever child it holds, and settle the promise of their own call.  The
  exit code of the \<^verbatim>\<open>close\<close> event is a number or \<^verbatim>\<open>null\<close>; the argument of \<open>on_error\<close> is
  \<^verbatim>\<open>e.message\<close>.
\<close>

definition on_close :: "child_id \<Rightarrow> int option \<Rightarrow> FFMPEG \<Rightarrow> FFMPEG" where
  "on_close c ec s =
     (let s1 = s\<lparr>child := None\<rparr>
      in if ec = Some 0 then update_child c (resolve (Ok ())) s1
         else update_child c
                (resolve (Err \<lparr>code = (case ec of Some n \<Rightarrow> n | None \<Rightarrow> - 1),
                               message = lastStderr s1\<rparr>)) s1)"

definition on_error :: "child_id \<Rightarrow> jsstring \<Rightarrow> FFMPEG \<Rightarrow> FFMPEG" where
  "on_error c msg s =
     (let s1 = s\<lparr>child := None\<rparr>
      in update_child c (resolve (Err \<lparr>code = - 1, message = msg\<rparr>)) s1)"

datatype child_event =
    StdoutData jsstring
  | StderrData jsstring
  | Close "int option"
  | Error jsstring

text \<open>
  An event of child \<open>c\<close> runs the listeners registered on that child; a child that was
  never spawned has none.
\<close>

fun deliver :: "child_id \<Rightarrow> child_event \<Rightarrow> FFMPEG \<Rightarrow> FFMPEG" where
  "deliver c (StdoutData data) s = (if c < length (children s) then on_stdout data s else s)"
| "deliver c (StderrData data) s = (if c < length (children s) then on_stderr data s else s)"
| "deliver c (Close ec) s =
     (if c < length (children s) \<and> close_listener (children s ! c)
      then on_close c ec (update_child c (\<lambda>l. l\<lparr>close_listener := False\<rparr>) s)
      else s)"
| "deliver c (Error msg) s =
     (if c < length (children s) \<and> error_listener (children s ! c)
      then on_error c msg (update_child c (\<lambda>l. l\<lparr>error_listener := False\<rparr>) s)
      else s)"

subsection \<open>\<^verbatim>\<open>stop\<close>\<close>

text \<open>
  \<open>accepted\<close> is what \<^verbatim>\<open>child.kill(signal)\<close> returns if \<^verbatim>\<open>stop\<close> gets to call it; the call is
  recorded in \<open>kill_calls\<close>.
\<close>

definition stop :: "bool \<Rightarrow> signal option \<Rightarrow> FFMPEG \<Rightarrow> bool \<times> FFMPEG" where
  "stop accepted sig s =
     (case child s of
        None \<Rightarrow> (False, s)
      | Some c \<Rightarrow>
          if \<not> killed s
          then (let s1 = s\<lparr>kill_calls := kill_calls s @ [(c, sig)]\<rparr>
                in if accepted then (True, s1\<lparr>killed := True\<rparr>) else (False, s1))
          else (False, s))"

subsection \<open>Histories of an instance\<close>

datatype action =
    Start spawn_outcome
  | Stop bool "signal option"
  | Deliver child_id child_event

fun step :: "action \<Rightarrow> FFMPEG \<Rightarrow> FFMPEG" where
  "step (Start sp) s = snd (start sp s)"
| "step (Stop accepted sig) s = snd (stop accepted sig s)"
| "step (Deliver c e) s = deliver c e s"

fun run :: "action list \<Rightarrow> FFMPEG \<Rightarrow> FFMPEG" where
  "run [] s = s"
| "run (a # as) s = run as (step a s)"

fun is_Start :: "action \<Rightarrow> bool" where
  "is_Start (Start _) = True"
| "is_Start _ = False"

text \<open>The \<^verbatim>\<open>close\<close> and \<^verbatim>\<open>error\<close> events of child \<open>c\<close>.\<close>

fun is_terminal_of :: "child_id \<Rightarrow> action \<Rightarrow> bool" where
  "is_terminal_of c (Deliver c' (Close _)) = (c' = c)"
| "is_terminal_of c (Deliver c' (Error _)) = (c' = c)"
| "is_terminal_of c _ = False"


section \<open>Notions used in the statements\<close>

text \<open>The last \<open>n\<close> elements of a list (all of it when it is shorter).\<close>

definition trailing :: "nat \<Rightarrow> 'a list \<Rightarrow> 'a list" where
  "trailing n xs = drop (length xs - n) xs"

text \<open>A snapshot with a percentage has a positive duration.\<close>

definition percent_ok :: "FFMPEGProgress \<Rightarrow> bool" where
  "percent_ok p = (percent p = None \<or> duration_positive p)"

text \<open>The instance once \<^verbatim>\<open>start\<close> has spawned a child and the actions \<open>pre\<close> have happened.\<close>

abbreviation awaiting :: "action list \<Rightarrow> FFMPEG \<Rightarrow> FFMPEG" where
  "awaiting pre s \<equiv> run pre (snd (start Spawned s))"

text \<open>Concrete inputs: an instance with a live child and two diagnostic chunks.\<close>

definition running_example :: FFMPEG where
  "running_example = snd (start Spawned (new_FFMPEG [js ''-i'', js ''in.mp4''] None))"

text \<open>An instance whose first run has ended with an \<^verbatim>\<open>error\<close> event and no \<^verbatim>\<open>close\<close> yet.\<close>

definition errored_example :: FFMPEG where
  "errored_example =
     run [Start Spawned, Deliver 0 (Error (js ''ENOENT''))] (new_FFMPEG [js ''-i'', js ''in.mp4''] None)"

definition header_chunk :: jsstring where
  "header_chunk = js ''Duration: 00:01:30.50, start: 0.0''"

definition status_chunk :: jsstring where
  "status_chunk =
     js ''frame=  12 fps= 30 q=28.0 size=     256kB time=00:00:45.25 bitrate= 100.5kbits/s speed=1.5x''"

text \<open>A text that starts with a digit, and a pattern that can only match such a text.\<close>

definition digit_led :: "jsstring \<Rightarrow> bool" where
  "digit_led x = (case x of [] \<Rightarrow> False | d # _ \<Rightarrow> is_digit d)"

fun digit_first :: "regex \<Rightarrow> bool" where
  "digit_first (Plus k) = (k = Digit)"
| "digit_first (Seq a b) = digit_first a"
| "digit_first (Group i r) = digit_first r"
| "digit_first _ = False"

text \<open>A snapshot is all unknown as long as its duration is unknown.\<close>

definition fresh_ok :: "FFMPEGProgress \<Rightarrow> bool" where
  "fresh_ok p = (p = EmptyProgress \<or> duration p \<noteq> None)"

text \<open>More concrete inputs: two further chunks and a history that makes every field known.\<close>

definition banner_chunk :: jsstring where
  "banner_chunk = js ''ffmpeg version 6.0 fps=''"

definition broken_chunk :: jsstring where
  "broken_chunk = js ''fps=. q=1''"

definition example_history :: "action list" where
  "example_history =
     [Start Spawned, Deliver 0 (StderrData header_chunk), Deliver 0 (StderrData status_chunk)]"

section \<open>Verification\<close>

subsection \<open>The running example\<close>

lemma running_example_fields:
  "child running_example = Some 0" "killed running_example = False"
  "kill_calls running_example = []" "processing running_example"
  "length (children running_example) = 1"
  by (simp_all add: running_example_def start_def new_FFMPEG_def processing_def)

subsection \<open>Fields that the listeners and \<^verbatim>\<open>stop\<close> do not touch\<close>

lemma onStderrData_frame:
  "lastStderr (onStderrData d s) = lastStderr s"
  "child (onStderrData d s) = child s"
  "killed (onStderrData d s) = killed s"
  "kill_calls (onStderrData d s) = kill_calls s"
  "children (onStderrData d s) = children s"
  by (simp_all add: onStderrData_def Let_def emit_def)

lemma buffer_stderr_frame:
  "child (buffer_stderr d s) = child s"
  "killed (buffer_stderr d s) = killed s"
  "kill_calls (buffer_stderr d s) = kill_calls s"
  "children (buffer_stderr d s) = children s"
  "progress (buffer_stderr d s) = progress s"
  "emitted (buffer_stderr d s) = emitted s"
  by (simp_all add: buffer_stderr_def Let_def)

lemma on_stderr_frame:
  "child (on_stderr d s) = child s"
  "killed (on_stderr d s) = killed s"
  "kill_calls (on_stderr d s) = kill_calls s"
  "children (on_stderr d s) = children s"
  by (simp_all add: on_stderr_def emit_def onStderrData_frame buffer_stderr_frame)

lemma on_stdout_frame:
  "child (on_stdout d s) = child s"
  "killed (on_stdout d s) = killed s"
  "kill_calls (on_stdout d s) = kill_calls s"
  "children (on_stdout d s) = children s"
  "lastStderr (on_stdout d s) = lastStderr s"
  "progress (on_stdout d s) = progress s"
  by (simp_all add: on_stdout_def emit_def)

lemma stop_frame:
  "child (snd (stop k g s)) = child s" "children (snd (stop k g s)) = children s"
  "lastStderr (snd (stop k g s)) = lastStderr s"
  "progress (snd (stop k g s)) = progress s"
  "emitted (snd (stop k g s)) = emitted s"
  "killed s \<Longrightarrow> killed (snd (stop k g s))"
  by (simp_all add: stop_def Let_def split: option.splits)

lemma update_child_frame:
  "child (update_child c f s) = child s" "killed (update_child c f s) = killed s"
  "lastStderr (update_child c f s) = lastStderr s" "progress (update_child c f s) = progress s"
  "emitted (update_child c f s) = emitted s" "kill_calls (update_child c f s) = kill_calls s"
  "length (children (update_child c f s)) = length (children s)"
  by (simp_all add: update_child_def)

lemma update_child_nth:
  "c < length (children s) \<Longrightarrow> children (update_child c f s) ! c = f (children s ! c)"
  "c' \<noteq> c \<Longrightarrow> children (update_child c' f s) ! c = children s ! c"
  by (simp_all add: update_child_def)

lemma resolve_fields:
  "promise (resolve r l) = (case promise l of None \<Rightarrow> Some r | Some r' \<Rightarrow> Some r')"
  "close_listener (resolve r l) = close_listener l"
  "error_listener (resolve r l) = error_listener l"
  by (simp_all add: resolve_def split: option.splits)

lemma on_close_frame:
  "killed (on_close c ec s) = killed s" "lastStderr (on_close c ec s) = lastStderr s"
  "progress (on_close c ec s) = progress s" "emitted (on_close c ec s) = emitted s"
  "child (on_close c ec s) = None"
  "length (children (on_close c ec s)) = length (children s)"
  by (simp_all add: on_close_def Let_def update_child_frame)

lemma on_error_frame:
  "killed (on_error c m s) = killed s" "lastStderr (on_error c m s) = lastStderr s"
  "progress (on_error c m s) = progress s" "emitted (on_error c m s) = emitted s"
  "child (on_error c m s) = None"
  "length (children (on_error c m s)) = length (children s)"
  by (simp_all add: on_error_def Let_def update_child_frame)

lemma deliver_frame:
  "killed (deliver c e s) = killed s"
  "length (children (deliver c e s)) = length (children s)"
  "child s = None \<Longrightarrow> child (deliver c e s) = None"
  by (cases e; simp add: on_stdout_frame on_stderr_frame on_close_frame on_error_frame
      update_child_frame)+

lemma step_children_length:
  "\<not> is_Start a \<Longrightarrow> length (children (step a s)) = length (children s)"
  by (cases a) (simp_all add: stop_frame deliver_frame)

lemma run_children_length:
  "list_all (\<lambda>a. \<not> is_Start a) acts \<Longrightarrow> length (children (run acts s)) = length (children s)"
  by (induction acts arbitrary: s) (simp_all add: step_children_length)



lemma run_append: "run (xs @ ys) s = run ys (run xs s)"
  by (induction xs arbitrary: s) simp_all

lemma start_spawned_fields:
  assumes "\<not> processing s"
  shows "lastStderr (snd (start sp s)) = []" "progress (snd (start sp s)) = EmptyProgress"
    "children (snd (start Spawned s)) =
       children s @ [\<lparr>close_listener = True, error_listener = True, promise = None\<rparr>]"
    "child (snd (start Spawned s)) = Some (length (children s))"
    "child (snd (start (SpawnThrows e) s)) = None"
  using assms by (cases sp; simp add: start_def Let_def processing_def)+

lemma step_child_None:
  assumes "\<not> is_Start a" "child s = None"
  shows "child (step a s) = None"
  using assms by (cases a) (simp_all add: stop_frame deliver_frame)

lemma run_child_None:
  assumes "list_all (\<lambda>a. \<not> is_Start a) acts" "child s = None"
  shows "child (run acts s) = None"
  using assms by (induction acts arbitrary: s) (simp_all add: step_child_None)

subsection \<open>What happens to the listeners and the promise of one child\<close>

lemma start_children:
  "c < length (children s) \<Longrightarrow>
     c < length (children (snd (start sp s))) \<and> children (snd (start sp s)) ! c = children s ! c"
  by (cases sp) (simp_all add: start_def Let_def nth_append)

lemma deliver_other:
  assumes "\<not> is_terminal_of c (Deliver c' e)"
  shows "children (deliver c' e s) ! c = children s ! c"
proof (cases e)
  case (StdoutData d)
  then show ?thesis by (simp add: on_stdout_frame)
next
  case (StderrData d)
  then show ?thesis by (simp add: on_stderr_frame)
next
  case (Close ec)
  with assms have "c' \<noteq> c" by simp
  then show ?thesis
    using Close by (simp add: on_close_def Let_def update_child_def)
next
  case (Error m)
  with assms have "c' \<noteq> c" by simp
  then show ?thesis
    using Error by (simp add: on_error_def Let_def update_child_def)
qed

lemma step_other:
  assumes "c < length (children s)" "\<not> is_terminal_of c a"
  shows "c < length (children (step a s)) \<and> children (step a s) ! c = children s ! c"
proof (cases a)
  case (Start sp)
  with assms(1) show ?thesis by (simp add: start_children)
next
  case (Stop k g)
  with assms(1) show ?thesis by (simp add: stop_frame)
next
  case (Deliver c' e)
  with assms show ?thesis by (simp add: deliver_frame deliver_other)
qed

lemma run_other:
  assumes "c < length (children s)" "list_all (\<lambda>a. \<not> is_terminal_of c a) acts"
  shows "c < length (children (run acts s)) \<and> children (run acts s) ! c = children s ! c"
  using assms
proof (induction acts arbitrary: s)
  case Nil
  then show ?case by simp
next
  case (Cons a acts)
  from Cons.prems have "c < length (children (step a s))"
    "children (step a s) ! c = children s ! c"
    using step_other [of c s a] by simp_all
  with Cons.IH [of "step a s"] Cons.prems(2) show ?case by simp
qed

lemma deliver_settled:
  assumes "c < length (children s)" "promise (children s ! c) = Some r"
  shows "promise (children (deliver c' e s) ! c) = Some r"
proof (cases "c' = c")
  case False
  with assms show ?thesis
    by (cases e) (simp_all add: on_stdout_frame on_stderr_frame on_close_def on_error_def Let_def
        update_child_def)
next
  case True
  with assms show ?thesis
    by (cases e) (simp_all add: on_stdout_frame on_stderr_frame on_close_def on_error_def Let_def
        update_child_def resolve_fields)
qed

lemma step_settled:
  assumes "c < length (children s)" "promise (children s ! c) = Some r"
  shows "c < length (children (step a s)) \<and> promise (children (step a s) ! c) = Some r"
proof (cases a)
  case (Start sp)
  with assms show ?thesis by (simp add: start_children)
next
  case (Stop k g)
  with assms show ?thesis by (simp add: stop_frame)
next
  case (Deliver c' e)
  with assms show ?thesis by (simp add: deliver_frame deliver_settled)
qed

lemma run_settled:
  assumes "c < length (children s)" "promise (children s ! c) = Some r"
  shows "promise_of c (run acts s) = Some r"
  using assms
proof (induction acts arbitrary: s)
  case Nil
  then show ?case by (simp add: promise_of_def)
next
  case (Cons a acts)
  from step_settled [OF Cons.prems, of a] Cons.IH [of "step a s"] show ?case by simp
qed

lemma deliver_Close_settles:
  assumes "c < length (children s)" "close_listener (children s ! c)"
    "promise (children s ! c) = None"
  shows "c < length (children (deliver c (Close ec) s))"
    "promise (children (deliver c (Close ec) s) ! c) =
       Some (if ec = Some 0 then Ok ()
             else Err \<lparr>code = (case ec of Some n \<Rightarrow> n | None \<Rightarrow> - 1),
                       message = lastStderr s\<rparr>)"
    "child (deliver c (Close ec) s) = None"
  using assms
  by (simp_all add: on_close_def Let_def update_child_def resolve_fields)

lemma deliver_Error_settles:
  assumes "c < length (children s)" "error_listener (children s ! c)"
    "promise (children s ! c) = None"
  shows "c < length (children (deliver c (Error msg) s))"
    "promise (children (deliver c (Error msg) s) ! c) = Some (Err \<lparr>code = - 1, message = msg\<rparr>)"
    "child (deliver c (Error msg) s) = None"
  using assms
  by (simp_all add: on_error_def Let_def update_child_def resolve_fields)

subsection \<open>The buffer after a chunk\<close>

lemma slice_str_negative:
  "0 < n \<Longrightarrow> slice_str xs (- int n) = trailing n xs"
  by (auto simp add: slice_str_def trailing_def Let_def max_def nat_diff_distrib')

lemma on_stderr_lastStderr:
  "lastStderr (on_stderr d s) = trailing MAX_STDERR_LENGTH (lastStderr s @ d)"
proof -
  have pos: "0 < MAX_STDERR_LENGTH" by (simp add: MAX_STDERR_LENGTH_def)
  have short: "trailing MAX_STDERR_LENGTH xs = xs" if "\<not> MAX_STDERR_LENGTH < length xs" for xs :: jsstring
    using that by (simp add: trailing_def)
  show ?thesis
    using slice_str_negative [OF pos, of "lastStderr s @ d"] short [of "lastStderr s @ d"]
    by (simp add: on_stderr_def buffer_stderr_def Let_def emit_def onStderrData_frame
        del: append_eq_append_conv)
qed






subsection \<open>The snapshot after a chunk\<close>

lemma track_duration:
  "duration (track_frame data p) = duration p" "duration (track_fps data p) = duration p"
  "duration (track_quality data p) = duration p" "duration (track_size data p) = duration p"
  "duration (track_time data p) = duration p" "duration (track_bitrate data p) = duration p"
  "duration (track_speed data p) = duration p"
  by (simp_all add: track_frame_def track_fps_def track_quality_def track_size_def
      track_time_def track_bitrate_def track_speed_def Let_def split: option.splits)

lemma track_progress_duration: "duration (track_progress data p) = duration p"
  by (simp add: track_progress_def track_duration)

lemma track_after_time:
  "timeInSeconds (track_speed data p) = timeInSeconds p" "percent (track_speed data p) = percent p"
  "timeInSeconds (track_bitrate data p) = timeInSeconds p" "percent (track_bitrate data p) = percent p"
  by (simp_all add: track_bitrate_def track_speed_def split: option.splits)

lemma track_progress_no_match:
  assumes "str_match data re_frame = None" "str_match data re_fps = None"
    "str_match data re_q = None" "str_match data re_size = None"
    "str_match data re_time = None" "str_match data re_bitrate = None"
    "str_match data re_speed = None"
  shows "track_progress data p = p"
  using assms
  by (simp add: track_progress_def track_frame_def track_fps_def track_quality_def
      track_size_def track_time_def track_bitrate_def track_speed_def)

lemma percent_ok_Empty: "percent_ok EmptyProgress"
  by (simp add: percent_ok_def EmptyProgress_def)

lemma percent_ok_extract: "percent_ok p \<Longrightarrow> percent_ok (extract_duration data p)"
  by (auto simp add: percent_ok_def extract_duration_def duration_positive_def
      split: option.splits)

lemma percent_ok_track:
  assumes "percent_ok p"
  shows "percent_ok (track_frame data p)" "percent_ok (track_fps data p)"
    "percent_ok (track_quality data p)" "percent_ok (track_size data p)"
    "percent_ok (track_time data p)" "percent_ok (track_bitrate data p)"
    "percent_ok (track_speed data p)"
  using assms
  by (auto simp add: percent_ok_def duration_positive_def track_frame_def track_fps_def
      track_quality_def track_size_def track_time_def track_bitrate_def track_speed_def Let_def
      split: option.splits)

lemma percent_ok_onStderrData:
  "percent_ok (progress s) \<Longrightarrow> percent_ok (progress (onStderrData data s))"
  by (simp add: onStderrData_def Let_def emit_def track_progress_def percent_ok_extract
      percent_ok_track)

lemma percent_ok_step: "percent_ok (progress s) \<Longrightarrow> percent_ok (progress (step a s))"
proof (cases a)
  case (Start sp)
  assume "percent_ok (progress s)"
  then show ?thesis using Start
    by (cases sp) (simp_all add: start_def Let_def percent_ok_Empty)
next
  case (Stop k g)
  assume "percent_ok (progress s)"
  then show ?thesis using Stop by (simp add: stop_frame)
next
  case (Deliver c e)
  assume "percent_ok (progress s)"
  then show ?thesis using Deliver
    by (cases e) (simp_all add: on_stdout_def emit_def on_stderr_def percent_ok_onStderrData
        buffer_stderr_frame on_close_frame on_error_frame update_child_frame)
qed

lemma percent_ok_run: "percent_ok (progress s) \<Longrightarrow> percent_ok (progress (run acts s))"
  by (induction acts arbitrary: s) (simp_all add: percent_ok_step)

lemma extract_duration_known:
  "duration p = Some d \<Longrightarrow> extract_duration data p = p"
  by (simp add: extract_duration_def)

lemma onStderrData_duration_known:
  "duration (progress s) = Some d \<Longrightarrow> duration (progress (onStderrData data s)) = Some d"
  by (simp add: onStderrData_def Let_def emit_def extract_duration_known track_progress_duration)

lemma step_duration_known:
  assumes "\<not> is_Start a" "duration (progress s) = Some d"
  shows "duration (progress (step a s)) = Some d"
proof (cases a)
  case (Start sp)
  with assms show ?thesis by simp
next
  case (Stop k g)
  with assms show ?thesis by (simp add: stop_frame)
next
  case (Deliver c e)
  with assms show ?thesis
    by (cases e) (simp_all add: on_stdout_def emit_def on_stderr_def onStderrData_duration_known
        buffer_stderr_frame on_close_frame on_error_frame update_child_frame)
qed

lemma run_duration_known:
  assumes "list_all (\<lambda>a. \<not> is_Start a) acts" "duration (progress s) = Some d"
  shows "duration (progress (run acts s)) = Some d"
  using assms by (induction acts arbitrary: s) (simp_all add: step_duration_known)

lemma fresh_ok_onStderrData:
  assumes "fresh_ok (progress s)"
  shows "fresh_ok (progress (onStderrData data s))"
proof (cases "duration (extract_duration data (progress s)) = None")
  case True
  then have "duration (progress s) = None"
    by (auto simp add: extract_duration_def split: if_splits)
  with assms have "progress s = EmptyProgress" by (simp add: fresh_ok_def)
  moreover from True have "extract_duration data (progress s) = progress s"
    by (auto simp add: extract_duration_def split: if_splits option.splits)
  ultimately show ?thesis
    using True by (simp add: onStderrData_def Let_def fresh_ok_def)
next
  case False
  then show ?thesis
    by (simp add: onStderrData_def Let_def emit_def fresh_ok_def track_progress_duration)
qed

lemma fresh_ok_step: "fresh_ok (progress s) \<Longrightarrow> fresh_ok (progress (step a s))"
proof (cases a)
  case (Start sp)
  assume "fresh_ok (progress s)"
  then show ?thesis using Start
    by (cases sp) (simp_all add: start_def Let_def fresh_ok_def)
next
  case (Stop k g)
  assume "fresh_ok (progress s)"
  then show ?thesis using Stop by (simp add: stop_frame)
next
  case (Deliver c e)
  assume "fresh_ok (progress s)"
  then show ?thesis using Deliver
    by (cases e) (simp_all add: on_stdout_def emit_def on_stderr_def fresh_ok_onStderrData
        buffer_stderr_frame on_close_frame on_error_frame update_child_frame)
qed

lemma fresh_ok_run: "fresh_ok (progress s) \<Longrightarrow> fresh_ok (progress (run acts s))"
  by (induction acts arbitrary: s) (simp_all add: fresh_ok_step)

lemma unknown_duration_all_unknown:
  assumes "duration (progress (run acts (new_FFMPEG a ep))) = None"
  shows "progress (run acts (new_FFMPEG a ep)) = EmptyProgress"
proof -
  have "fresh_ok (progress (run acts (new_FFMPEG a ep)))"
    by (rule fresh_ok_run) (simp add: new_FFMPEG_def fresh_ok_def)
  with assms show ?thesis by (simp add: fresh_ok_def)
qed

subsection \<open>Captures of an hours:minutes:seconds match\<close>

lemma rmatch_suffix:
  "(rest, c') \<in> set (rmatch r (inp, c)) \<Longrightarrow> \<exists>pre. inp = pre @ rest"
proof (induction r arbitrary: inp c rest c')
  case (Lit l)
  then show ?case
    by (auto split: if_splits) (metis append_take_drop_id)
next
  case (Star k)
  then show ?case by auto (metis append_take_drop_id)+
next
  case (Plus k)
  then show ?case by auto (metis append_take_drop_id)+
next
  case (Opt r)
  then show ?case by auto
next
  case (Group i r)
  then show ?case by auto
next
  case (Seq a b)
  from Seq.prems obtain mid cm where mid: "(mid, cm) \<in> set (rmatch a (inp, c))"
    and fin: "(rest, c') \<in> set (rmatch b (mid, cm))"
    by auto
  from Seq.IH(1) [OF mid] obtain p1 where "inp = p1 @ mid" by blast
  moreover from Seq.IH(2) [OF fin] obtain p2 where "mid = p2 @ rest" by blast
  ultimately have "inp = (p1 @ p2) @ rest" by simp
  then show ?case by blast
qed

lemma rmatch_frame:
  "(rest, c') \<in> set (rmatch r (inp, c)) \<Longrightarrow> i \<notin> groups r \<Longrightarrow> c' i = c i"
proof (induction r arbitrary: inp c rest c')
  case (Seq a b)
  from Seq.prems(1) obtain mid cm where mid: "(mid, cm) \<in> set (rmatch a (inp, c))"
    and fin: "(rest, c') \<in> set (rmatch b (mid, cm))"
    by auto
  from Seq.IH(1) [OF mid] Seq.IH(2) [OF fin] Seq.prems(2) show ?case by simp
qed (auto split: if_splits)

lemma rmatch_digit_first:
  "digit_first r \<Longrightarrow> (rest, c') \<in> set (rmatch r (inp, c)) \<Longrightarrow>
     digit_led inp \<and> length rest < length inp"
proof (induction r arbitrary: inp c rest c')
  case (Plus k)
  have cls: "in_cls Digit = is_digit" by (rule ext) simp
  from Plus obtain n where n: "1 \<le> n" "n \<le> length (takeWhile is_digit inp)"
    and r: "rest = drop n inp"
    by (auto simp add: cls)
  from n have ne: "takeWhile is_digit inp \<noteq> []" by auto
  then obtain d t where inp: "inp = d # t" by (cases inp) auto
  with ne have "is_digit d" by (auto split: if_splits)
  moreover have "n \<le> length inp"
    using n(2) length_takeWhile_le [of is_digit inp] by simp
  ultimately show ?case using n(1) r inp by (simp add: digit_led_def)
next
  case (Seq a b)
  from Seq.prems(2) obtain mid cm where mid: "(mid, cm) \<in> set (rmatch a (inp, c))"
    and fin: "(rest, c') \<in> set (rmatch b (mid, cm))"
    by auto
  from Seq.prems(1) have "digit_first a" by simp
  from Seq.IH(1) [OF this mid] have a: "digit_led inp" "length mid < length inp" by simp_all
  from rmatch_suffix [OF fin] have "length rest \<le> length mid" by auto
  with a show ?case by simp
next
  case (Group i r)
  then show ?case by auto
qed simp_all

lemma rmatch_Group_digit_led:
  assumes "digit_first r" "(rest, c') \<in> set (rmatch (Group i r) (inp, c))"
  shows "\<exists>x. c' i = Some x \<and> digit_led x"
proof -
  from assms(2) obtain c0 where inner: "(rest, c0) \<in> set (rmatch r (inp, c))"
    and c': "c' = c0(i \<mapsto> take (length inp - length rest) inp)"
    by auto
  from rmatch_digit_first [OF assms(1) inner] have "digit_led inp" "length rest < length inp"
    by simp_all
  then have "digit_led (take (length inp - length rest) inp)"
    by (cases inp; cases "length inp - length rest") (simp_all add: digit_led_def)
  with c' show ?thesis by simp
qed

lemma rmatch_SeqE:
  assumes "(rest, c') \<in> set (rmatch (Seq a b) (inp, c))"
  obtains mid cm where "(mid, cm) \<in> set (rmatch a (inp, c))"
    and "(rest, c') \<in> set (rmatch b (mid, cm))"
  using assms by auto

lemma rmatch_Lit_caps: "(rest, c') \<in> set (rmatch (Lit l) (inp, c)) \<Longrightarrow> c' = c"
  by (auto split: if_splits)

lemma hms_captures:
  assumes "(rest, c') \<in> set (rmatch hms (inp, c))"
  shows "(\<exists>x. c' 1 = Some x \<and> digit_led x) \<and> (\<exists>x. c' 2 = Some x \<and> digit_led x)
    \<and> (\<exists>x. c' 3 = Some x \<and> digit_led x)"
proof -
  let ?g3 = "Group 3 (Seq (Plus Digit) (Opt (Group 4 (Seq (Lit (js ''.'')) (Plus Digit)))))"
  from assms obtain i1 c1 where g1: "(i1, c1) \<in> set (rmatch (Group 1 (Plus Digit)) (inp, c))"
    and r1: "(rest, c') \<in> set (rmatch (Seq (Lit (js '':''))
        (Seq (Group 2 (Plus Digit)) (Seq (Lit (js '':'')) ?g3))) (i1, c1))"
    unfolding hms_def by (rule rmatch_SeqE)
  from r1 obtain i2 c2 where l1: "(i2, c2) \<in> set (rmatch (Lit (js '':'')) (i1, c1))"
    and r2: "(rest, c') \<in> set (rmatch (Seq (Group 2 (Plus Digit)) (Seq (Lit (js '':'')) ?g3))
        (i2, c2))"
    by (rule rmatch_SeqE)
  from r2 obtain i3 c3 where g2: "(i3, c3) \<in> set (rmatch (Group 2 (Plus Digit)) (i2, c2))"
    and r3: "(rest, c') \<in> set (rmatch (Seq (Lit (js '':'')) ?g3) (i3, c3))"
    by (rule rmatch_SeqE)
  from r3 obtain i4 c4 where l2: "(i4, c4) \<in> set (rmatch (Lit (js '':'')) (i3, c3))"
    and g3: "(rest, c') \<in> set (rmatch ?g3 (i4, c4))"
    by (rule rmatch_SeqE)
  have c2: "c2 = c1" and c4: "c4 = c3"
    using rmatch_Lit_caps [OF l1] rmatch_Lit_caps [OF l2] by simp_all
  have one: "\<exists>x. c1 1 = Some x \<and> digit_led x"
    using rmatch_Group_digit_led [OF _ g1] by simp
  have two: "\<exists>x. c3 2 = Some x \<and> digit_led x"
    using rmatch_Group_digit_led [OF _ g2] by simp
  have three: "\<exists>x. c' 3 = Some x \<and> digit_led x"
    using rmatch_Group_digit_led [OF _ g3] by simp
  have "c3 1 = c1 1"
    using rmatch_frame [OF g2, of 1] c2 by simp
  moreover have "c' 1 = c3 1" "c' 2 = c3 2"
    using rmatch_frame [OF g3, of 1] rmatch_frame [OF g3, of 2] c4 by simp_all
  ultimately show ?thesis using one two three by simp
qed

lemma match_at_result:
  assumes "match_at re inp = Some m"
  shows "\<exists>rest caps. (rest, caps) \<in> set (rmatch re (inp, Map.empty))
        \<and> m = caps(0 \<mapsto> take (length inp - length rest) inp)"
proof (cases "rmatch re (inp, Map.empty)")
  case Nil
  with assms show ?thesis by (simp add: match_at_def)
next
  case (Cons first others)
  obtain rest caps where first: "first = (rest, caps)" by (cases first)
  with Cons assms have "m = caps(0 \<mapsto> take (length inp - length rest) inp)"
    by (simp add: match_at_def)
  moreover have "(rest, caps) \<in> set (rmatch re (inp, Map.empty))"
    using Cons first by simp
  ultimately show ?thesis by blast
qed

lemma str_match_result:
  "str_match inp re = Some m \<Longrightarrow>
     \<exists>inp' rest caps. (rest, caps) \<in> set (rmatch re (inp', Map.empty))
        \<and> m = caps(0 \<mapsto> take (length inp' - length rest) inp')"
proof (induction inp)
  case Nil
  then have "match_at re [] = Some m" by simp
  from match_at_result [OF this] show ?case by blast
next
  case (Cons x xs)
  show ?case
  proof (cases "match_at re (x # xs)")
    case None
    with Cons.prems have "str_match xs re = Some m" by simp
    from Cons.IH [OF this] show ?thesis .
  next
    case (Some m')
    with Cons.prems have "match_at re (x # xs) = Some m" by simp
    from match_at_result [OF this] show ?thesis by blast
  qed
qed

lemma str_match_hms_captures:
  assumes "str_match data (Seq (Lit l) hms) = Some m"
  shows "(\<exists>x. m 1 = Some x \<and> digit_led x) \<and> (\<exists>x. m 2 = Some x \<and> digit_led x)
    \<and> (\<exists>x. m 3 = Some x \<and> digit_led x)"
proof -
  from str_match_result [OF assms] obtain inp rest caps
    where r: "(rest, caps) \<in> set (rmatch (Seq (Lit l) hms) (inp, Map.empty))"
      and m: "m = caps(0 \<mapsto> take (length inp - length rest) inp)"
    by blast
  from r obtain mid cm where "(rest, caps) \<in> set (rmatch hms (mid, cm))"
    by (rule rmatch_SeqE)
  from hms_captures [OF this] m show ?thesis by simp
qed

lemma digit_not_space_sign:
  assumes "is_digit d"
  shows "\<not> is_space d" "d \<noteq> 0x2D" "d \<noteq> 0x2B"
proof -
  from assms have lo: "0x30 \<le> d" and hi: "d \<le> 0x39" by (simp_all add: is_digit_def)
  have small: "\<not> d \<le> x" if "x < 0x30" for x
    using lo that by simp
  have big: "\<not> x \<le> d" if "0x39 < x" for x
    using hi that by simp
  show "d \<noteq> 0x2D" "d \<noteq> 0x2B"
    using small [of "0x2D"] small [of "0x2B"] by auto
  show "\<not> is_space d"
    unfolding is_space_def
    using small [of "0x09"] small [of "0x0A"] small [of "0x0B"] small [of "0x0C"] small [of "0x0D"]
      small [of "0x20"] big [of "0xA0"] big [of "0x1680"] big [of "0x2000"] big [of "0x2028"]
      big [of "0x2029"] big [of "0x202F"] big [of "0x205F"] big [of "0x3000"] big [of "0xFEFF"]
    by auto
qed

lemma parse_digit_led:
  assumes "digit_led x"
  shows "\<exists>v. parseInt (Some x) = Num v" "\<exists>v. parseFloat (Some x) = Num v"
proof -
  from assms obtain d t where x: "x = d # t" and d: "is_digit d"
    by (cases x) (simp_all add: digit_led_def)
  show "\<exists>v. parseInt (Some x) = Num v"
    using x d digit_not_space_sign [OF d] by (simp add: parseInt_def read_sign_def)
  show "\<exists>v. parseFloat (Some x) = Num v"
    using x d digit_not_space_sign [OF d] by (simp add: parseFloat_def read_sign_def Let_def)
qed

lemma hms_seconds_match:
  assumes "str_match data (Seq (Lit l) hms) = Some m"
  shows "\<exists>h mi sec. parseInt (m 1) = Num h \<and> parseInt (m 2) = Num mi \<and> parseFloat (m 3) = Num sec
    \<and> hms_seconds m = Some (Num (h * 3600 + mi * 60 + sec))"
proof -
  from str_match_hms_captures [OF assms] obtain x1 x2 x3
    where c: "m 1 = Some x1" "m 2 = Some x2" "m 3 = Some x3"
      and l: "digit_led x1" "digit_led x2" "digit_led x3"
    by blast
  from parse_digit_led(1) [OF l(1)] parse_digit_led(1) [OF l(2)] parse_digit_led(2) [OF l(3)]
  obtain h mi sec where "parseInt (Some x1) = Num h" "parseInt (Some x2) = Num mi"
    "parseFloat (Some x3) = Num sec"
    by blast
  with c show ?thesis by (simp add: hms_seconds_def)
qed

subsection \<open>The example chunks, evaluated\<close>

lemmas eval_defs = js_def re_duration_def re_frame_def re_fps_def re_q_def re_size_def re_time_def
  re_bitrate_def re_speed_def hms_def parseInt_def parseFloat_def read_sign_def is_space_def
  is_digit_def digits_val_def digit_val_def hms_seconds_def Let_def match_at_def

lemma header_duration:
  "extract_duration header_chunk EmptyProgress = EmptyProgress\<lparr>duration := Some (Num 90.5)\<rparr>"
  by (simp add: header_chunk_def extract_duration_def EmptyProgress_def eval_defs)

lemma header_no_fields:
  "str_match header_chunk re_frame = None" "str_match header_chunk re_fps = None"
  "str_match header_chunk re_q = None" "str_match header_chunk re_size = None"
  "str_match header_chunk re_time = None" "str_match header_chunk re_bitrate = None"
  "str_match header_chunk re_speed = None"
  by (simp_all add: header_chunk_def eval_defs)

lemma header_match:
  "\<exists>m. str_match header_chunk re_duration = Some m \<and> parseInt (m 1) = Num 0
     \<and> parseInt (m 2) = Num 1 \<and> parseFloat (m 3) = Num 30.5"
  by (simp add: header_chunk_def eval_defs)

lemma status_fields:
  "track_progress status_chunk (EmptyProgress\<lparr>duration := Some (Num 90.5)\<rparr>) =
     \<lparr>duration = Some (Num 90.5), percent = Some (Num 50), frame = Some (Num 12),
      fps = Some (Num 30), quality = Some (Num 28), sizeKB = Some (Num 256),
      timeInSeconds = Some (Num 45.25), bitrateKbps = Some (Num 100.5), speed = Some (Num 1.5)\<rparr>"
  by (simp add: status_chunk_def track_progress_def track_frame_def track_fps_def
      track_quality_def track_size_def track_time_def track_bitrate_def track_speed_def
      duration_positive_def EmptyProgress_def eval_defs)

lemma status_time_match:
  "\<exists>m. str_match status_chunk re_time = Some m \<and> hms_seconds m = Some (Num 45.25)"
  by (simp add: status_chunk_def eval_defs)

lemma progress_after_header:
  assumes "progress s = EmptyProgress"
  shows "progress (on_stderr header_chunk s) = EmptyProgress\<lparr>duration := Some (Num 90.5)\<rparr>"
  using assms header_duration
  by (simp add: on_stderr_def onStderrData_def Let_def emit_def buffer_stderr_frame
      track_progress_no_match [OF header_no_fields])

lemma progress_after_status:
  assumes "progress s = EmptyProgress\<lparr>duration := Some (Num 90.5)\<rparr>"
  shows "progress (on_stderr status_chunk s) =
     \<lparr>duration = Some (Num 90.5), percent = Some (Num 50), frame = Some (Num 12),
      fps = Some (Num 30), quality = Some (Num 28), sizeKB = Some (Num 256),
      timeInSeconds = Some (Num 45.25), bitrateKbps = Some (Num 100.5), speed = Some (Num 1.5)\<rparr>"
  using assms status_fields
  by (simp add: on_stderr_def onStderrData_def Let_def emit_def buffer_stderr_frame
      extract_duration_known)

lemma example_history_progress:
  "progress (run example_history (new_FFMPEG [] None)) =
     \<lparr>duration = Some (Num 90.5), percent = Some (Num 50), frame = Some (Num 12),
      fps = Some (Num 30), quality = Some (Num 28), sizeKB = Some (Num 256),
      timeInSeconds = Some (Num 45.25), bitrateKbps = Some (Num 100.5), speed = Some (Num 1.5)\<rparr>"
proof -
  let ?s1 = "snd (start Spawned (new_FFMPEG [] None))"
  have s1: "progress ?s1 = EmptyProgress" "length (children ?s1) = 1"
    by (simp_all add: start_def new_FFMPEG_def processing_def Let_def)
  have "run example_history (new_FFMPEG [] None) =
      on_stderr status_chunk (on_stderr header_chunk ?s1)"
    using s1(2) by (simp add: example_history_def on_stderr_frame)
  then show ?thesis
    using progress_after_status [OF progress_after_header [OF s1(1)]] by simp
qed

subsection \<open>How \<^verbatim>\<open>start\<close> resolves\<close>

text \<open>
  C1.  Take a \<^verbatim>\<open>start\<close> on an instance that is not processing, whatever happened to the
  instance before.  If \<^verbatim>\<open>spawn\<close> throws, the result is the failure with code -1 and the text
  of the exception, and the instance is not processing.  Otherwise the call spawns a new
  child, whose promise is pending as long as that child has sent neither \<^verbatim>\<open>close\<close> nor
  \<^verbatim>\<open>error\<close>, whatever else happens: further calls of \<^verbatim>\<open>start\<close> and \<^verbatim>\<open>stop\<close>, data of any
  child, and \<^verbatim>\<open>close\<close> or \<^verbatim>\<open>error\<close> events of the children of earlier runs.  The first
  \<^verbatim>\<open>close\<close> or \<^verbatim>\<open>error\<close> event of the child settles the promise of this call: \<^verbatim>\<open>close\<close> with
  exit code 0 gives success; \<^verbatim>\<open>close\<close> with another exit code gives the failure with that
  code, or -1 when the code is \<^verbatim>\<open>null\<close>, and the trailing error buffer of that moment as
  message; \<^verbatim>\<open>error\<close> gives the failure with code -1 and the error's message.  The same step
  clears the process handle, which stays cleared until the next \<^verbatim>\<open>start\<close>, and the promise
  keeps its value through every later history.
\<close>

theorem start_resolution:
  assumes idle: "\<not> processing s"
    and pre: "list_all (\<lambda>a. \<not> is_terminal_of (length (children s)) a) pre"
    and quiet: "list_all (\<lambda>a. \<not> is_Start a) quiet"
  shows "fst (start Spawned s) = None
    \<and> child (snd (start Spawned s)) = Some (length (children s))
    \<and> length (children s) < length (children (awaiting pre s))
    \<and> promise_of (length (children s)) (awaiting pre s) = None
    \<and> promise_of (length (children s))
         (run post (deliver (length (children s)) (Close ec) (awaiting pre s))) =
        Some (if ec = Some 0 then Ok ()
              else Err \<lparr>code = (case ec of Some n \<Rightarrow> n | None \<Rightarrow> - 1),
                        message = lastStderr (awaiting pre s)\<rparr>)
    \<and> \<not> processing (run quiet (deliver (length (children s)) (Close ec) (awaiting pre s)))
    \<and> promise_of (length (children s))
         (run post (deliver (length (children s)) (Error msg) (awaiting pre s))) =
        Some (Err \<lparr>code = - 1, message = msg\<rparr>)
    \<and> \<not> processing (run quiet (deliver (length (children s)) (Error msg) (awaiting pre s)))
    \<and> fst (start (SpawnThrows e) s) = Some (Err \<lparr>code = - 1, message = e\<rparr>)
    \<and> \<not> processing (snd (start (SpawnThrows e) s))"
proof -
  let ?c = "length (children s)"
  let ?s1 = "snd (start Spawned s)"
  let ?w = "awaiting pre s"
  have s1: "?c < length (children ?s1)"
    "children ?s1 ! ?c = \<lparr>close_listener = True, error_listener = True, promise = None\<rparr>"
    using start_spawned_fields(3) [OF idle] by simp_all
  from run_other [OF s1(1) pre] s1(2)
  have w: "?c < length (children ?w)" "close_listener (children ?w ! ?c)"
    "error_listener (children ?w ! ?c)" "promise (children ?w ! ?c) = None"
    by simp_all
  have pending: "fst (start Spawned s) = None"
    using idle by (simp add: start_def Let_def)
  note close = deliver_Close_settles [OF w(1,2,4), of ec]
  note err = deliver_Error_settles [OF w(1,3,4), of msg]
  have throws: "fst (start (SpawnThrows e) s) = Some (Err \<lparr>code = - 1, message = e\<rparr>)"
      "\<not> processing (snd (start (SpawnThrows e) s))"
    using idle by (simp_all add: start_def Let_def processing_def)
  from w pending start_spawned_fields(4) [OF idle]
    run_settled [OF close(1,2), of post] run_child_None [OF quiet close(3)]
    run_settled [OF err(1,2), of post] run_child_None [OF quiet err(3)] throws
  show ?thesis by (simp add: processing_def promise_of_def)
qed

text \<open>
  The instance of the witness has a first run that ended with an \<^verbatim>\<open>error\<close> event of child 0,
  whose \<^verbatim>\<open>close\<close> listener is therefore still registered.  The second \<^verbatim>\<open>start\<close> spawns
  child 1.  The late \<^verbatim>\<open>close\<close> of child 0 then clears the handle that holds child 1 and
  settles nothing; the \<^verbatim>\<open>close\<close> of child 1 with exit code 1 settles the second promise.
\<close>

theorem start_resolution_witness:
  "\<not> processing errored_example
   \<and> length (children errored_example) = 1
   \<and> promise_of 0 errored_example = Some (Err \<lparr>code = - 1, message = js ''ENOENT''\<rparr>)
   \<and> list_all (\<lambda>a. \<not> is_terminal_of 1 a)
        [Deliver 0 (Close (Some (- 2))), Deliver 1 (StderrData (js ''boom'')), Stop True None]
   \<and> list_all (\<lambda>a. \<not> is_Start a) [Deliver 1 (Error (js ''late''))]
   \<and> \<not> processing (awaiting [Deliver 0 (Close (Some (- 2)))] errored_example)
   \<and> promise_of 0 (awaiting [Deliver 0 (Close (Some (- 2)))] errored_example)
       = Some (Err \<lparr>code = - 1, message = js ''ENOENT''\<rparr>)
   \<and> promise_of 1
        (awaiting [Deliver 0 (Close (Some (- 2))), Deliver 1 (StderrData (js ''boom'')), Stop True None]
           errored_example) = None
   \<and> promise_of 1
        (run [Start Spawned, Deliver 2 (Close (Some 0)), Deliver 1 (Error (js ''late''))]
          (deliver 1 (Close (Some 1))
            (awaiting [Deliver 0 (Close (Some (- 2))), Deliver 1 (StderrData (js ''boom'')), Stop True None]
               errored_example)))
       = Some (Err \<lparr>code = 1, message = js ''boom''\<rparr>)
   \<and> \<not> processing
        (run [Deliver 1 (Error (js ''late''))]
          (deliver 1 (Close (Some 1))
            (awaiting [Deliver 0 (Close (Some (- 2))), Deliver 1 (StderrData (js ''boom'')), Stop True None]
               errored_example)))"
proof -
  let ?pre = "[Deliver 0 (Close (Some (- 2))), Deliver 1 (StderrData (js ''boom'')), Stop True None]"
  have s: "\<not> processing errored_example" "length (children errored_example) = 1"
    "promise_of 0 errored_example = Some (Err \<lparr>code = - 1, message = js ''ENOENT''\<rparr>)"
    by (simp_all add: errored_example_def start_def new_FFMPEG_def processing_def Let_def
        on_error_def update_child_def resolve_def promise_of_def)
  have pre: "list_all (\<lambda>a. \<not> is_terminal_of (length (children errored_example)) a) ?pre"
    by (simp add: s(2))
  have quiet: "list_all (\<lambda>a. \<not> is_Start a) [Deliver 1 (Error (js ''late''))]"
    by simp
  have stale: "\<not> processing (awaiting [Deliver 0 (Close (Some (- 2)))] errored_example)"
    "promise_of 0 (awaiting [Deliver 0 (Close (Some (- 2)))] errored_example)
       = Some (Err \<lparr>code = - 1, message = js ''ENOENT''\<rparr>)"
    by (simp_all add: errored_example_def start_def new_FFMPEG_def processing_def Let_def
        on_error_def on_close_def update_child_def resolve_def promise_of_def)
  have buf: "lastStderr (awaiting ?pre errored_example) = js ''boom''"
    using s(1,2)
    by (simp add: start_def Let_def on_close_frame update_child_frame on_stderr_lastStderr
        stop_frame trailing_def MAX_STDERR_LENGTH_def js_def)
  from start_resolution [OF s(1) pre quiet,
      of "[Start Spawned, Deliver 2 (Close (Some 0)), Deliver 1 (Error (js ''late''))]" "Some 1"]
    s pre quiet stale buf
  show ?thesis by (simp del: run.simps step.simps deliver.simps)
qed

subsection \<open>\<^verbatim>\<open>stop\<close>\<close>

text \<open>
  C2.  \<^verbatim>\<open>stop\<close> returns true exactly when a process handle exists, the instance is not yet
  marked killed and the runtime accepts the signal, and then the killed flag is set on
  return.  On an instance that is not processing or already marked killed it returns false
  and changes nothing, so no signal is issued.  Hence a second \<^verbatim>\<open>stop\<close> after a successful
  one returns false with killed still true, and \<^verbatim>\<open>stop\<close> on a new instance returns false and
  leaves killed false.
\<close>

theorem stop_result:
  "(fst (stop accepted sig s) \<longleftrightarrow> processing s \<and> \<not> killed s \<and> accepted)
   \<and> (fst (stop accepted sig s) \<longrightarrow> killed (snd (stop accepted sig s)))
   \<and> (\<not> processing s \<or> killed s \<longrightarrow> stop accepted sig s = (False, s))
   \<and> (fst (stop accepted sig s) \<longrightarrow>
        stop accepted' sig' (snd (stop accepted sig s)) = (False, snd (stop accepted sig s))
        \<and> killed (snd (stop accepted sig s)))
   \<and> stop accepted sig (new_FFMPEG a ep) = (False, new_FFMPEG a ep)
   \<and> \<not> killed (new_FFMPEG a ep)"
  by (auto simp add: stop_def processing_def new_FFMPEG_def Let_def split: option.splits)

theorem stop_result_witness:
  "processing running_example \<and> \<not> killed running_example
   \<and> fst (stop True None running_example)
   \<and> killed (snd (stop True None running_example))
   \<and> stop True None (snd (stop True None running_example))
       = (False, snd (stop True None running_example))
   \<and> kill_calls (snd (stop True None (snd (stop True None running_example)))) = [(0, None)]
   \<and> \<not> processing (new_FFMPEG [] None)
   \<and> stop True None (new_FFMPEG [] None) = (False, new_FFMPEG [] None)
   \<and> \<not> killed (new_FFMPEG [] None)"
proof -
  have calls: "kill_calls (snd (stop True None running_example)) = [(0, None)]"
    by (simp add: stop_def running_example_fields)
  have idle: "\<not> processing (new_FFMPEG [] None)"
    by (simp add: processing_def new_FFMPEG_def)
  from stop_result [of True None running_example True None "[]" None]
    stop_result [of True None "new_FFMPEG [] None" True None "[]" None]
    running_example_fields(2,4) calls idle
  show ?thesis by simp
qed

text \<open>
  C10.  The killed flag is true after \<^verbatim>\<open>stop\<close> exactly when it was true before or the call
  returns true.  When a process handle exists, the instance is not marked killed and the
  runtime rejects the signal, \<^verbatim>\<open>stop\<close> returns false, killed stays false, and a later \<^verbatim>\<open>stop\<close>
  calls \<^verbatim>\<open>kill\<close> on the same child again and returns what the runtime answers then.
\<close>

theorem stop_rejected:
  "(killed (snd (stop accepted sig s)) \<longleftrightarrow> killed s \<or> fst (stop accepted sig s))
   \<and> (child s = Some c \<and> \<not> killed s \<longrightarrow>
        fst (stop False sig s) = False
        \<and> \<not> killed (snd (stop False sig s))
        \<and> kill_calls (snd (stop False sig s)) = kill_calls s @ [(c, sig)]
        \<and> fst (stop accepted' sig' (snd (stop False sig s))) = accepted'
        \<and> kill_calls (snd (stop accepted' sig' (snd (stop False sig s))))
            = kill_calls s @ [(c, sig), (c, sig')])"
  by (auto simp add: stop_def Let_def split: option.splits)

theorem stop_rejected_witness:
  "child running_example = Some 0 \<and> \<not> killed running_example
   \<and> fst (stop False None running_example) = False
   \<and> \<not> killed (snd (stop False None running_example))
   \<and> kill_calls (snd (stop False None running_example)) = [(0, None)]
   \<and> fst (stop True (Some ''SIGKILL'') (snd (stop False None running_example))) = True
   \<and> kill_calls (snd (stop True (Some ''SIGKILL'') (snd (stop False None running_example))))
       = [(0, None), (0, Some ''SIGKILL'')]"
  using stop_rejected [of False None running_example 0 True "Some ''SIGKILL''"]
    running_example_fields(1,2,3)
  by simp

subsection \<open>\<^verbatim>\<open>start\<close> on a running instance\<close>

text \<open>
  C7.  Calling \<^verbatim>\<open>start\<close> while the instance is processing returns at once the error with
  code -1 and the message "FFMPEG process already started", and the instance and the
  runtime state around it (process handle, trailing error buffer, progress snapshot, killed
  flag, and everything else) are exactly as before the call.
\<close>

theorem start_already_started:
  assumes "processing s"
  shows "start sp s =
           (Some (Err \<lparr>code = - 1, message = js ''FFMPEG process already started''\<rparr>), s)"
  using assms by (simp add: start_def)

theorem start_already_started_witness:
  "processing running_example \<and>
   start Spawned running_example =
     (Some (Err \<lparr>code = - 1, message = js ''FFMPEG process already started''\<rparr>), running_example)"
  using start_already_started [of running_example Spawned] running_example_fields(4)
  by simp

subsection \<open>The trailing error buffer\<close>



subsection \<open>What \<^verbatim>\<open>start\<close> resets and what nothing resets\<close>



subsection \<open>Order of events for a diagnostic chunk\<close>

text \<open>
  C9.  The listener on the diagnostic channel adds to the emitted events first the
  \<^verbatim>\<open>stderr\<close> event with the chunk as it is and then, exactly when the duration is known
  after the chunk has been processed, one \<^verbatim>\<open>progress\<close> event with the snapshot of that
  moment.  The chunk is parsed in a state where the \<^verbatim>\<open>stderr\<close> event is already emitted and
  the snapshot is still the one from before.  This listener is what the diagnostic chunks of
  every spawned child reach, the child that \<^verbatim>\<open>start\<close> has just spawned among them.
\<close>

theorem stderr_then_progress:
  "emitted (on_stderr data s) =
     emitted s @ Stderr data #
       (if duration (progress (on_stderr data s)) \<noteq> None
        then [Progress (progress (on_stderr data s))] else [])
   \<and> on_stderr data s = onStderrData data (buffer_stderr data (emit (Stderr data) s))
   \<and> emitted (buffer_stderr data (emit (Stderr data) s)) = emitted s @ [Stderr data]
   \<and> progress (buffer_stderr data (emit (Stderr data) s)) = progress s
   \<and> deliver c (StderrData data) s = (if c < length (children s) then on_stderr data s else s)
   \<and> deliver (length (children s0)) (StderrData data) (snd (start Spawned s0)) =
       (if processing s0 then deliver (length (children s0)) (StderrData data) s0
        else on_stderr data (snd (start Spawned s0)))"
proof -
  have a: "emitted (on_stderr data s) =
     emitted s @ Stderr data #
       (if duration (progress (on_stderr data s)) \<noteq> None
        then [Progress (progress (on_stderr data s))] else [])"
    by (simp add: on_stderr_def onStderrData_def emit_def Let_def track_progress_duration
        buffer_stderr_frame)
  have b: "on_stderr data s = onStderrData data (buffer_stderr data (emit (Stderr data) s))
   \<and> emitted (buffer_stderr data (emit (Stderr data) s)) = emitted s @ [Stderr data]
   \<and> progress (buffer_stderr data (emit (Stderr data) s)) = progress s"
    by (simp add: on_stderr_def emit_def buffer_stderr_frame)
  have c: "deliver (length (children s0)) (StderrData data) (snd (start Spawned s0)) =
       (if processing s0 then deliver (length (children s0)) (StderrData data) s0
        else on_stderr data (snd (start Spawned s0)))"
    by (simp add: start_def Let_def)
  from a b c show ?thesis by simp
qed

theorem stderr_then_progress_witness:
  "emitted (on_stderr banner_chunk running_example) = [Stderr banner_chunk]
   \<and> emitted (on_stderr header_chunk running_example) =
       [Stderr header_chunk, Progress (EmptyProgress\<lparr>duration := Some (Num 90.5)\<rparr>)]"
proof -
  have empty: "progress running_example = EmptyProgress" "emitted running_example = []"
    by (simp_all add: running_example_def start_def new_FFMPEG_def processing_def Let_def)
  have banner: "progress (on_stderr banner_chunk running_example) = EmptyProgress"
    using empty
    by (simp add: on_stderr_def onStderrData_def Let_def emit_def buffer_stderr_frame
        extract_duration_def banner_chunk_def EmptyProgress_def eval_defs)
  from stderr_then_progress [of banner_chunk running_example 0 running_example, THEN conjunct1]
    stderr_then_progress [of header_chunk running_example 0 running_example, THEN conjunct1]
    banner progress_after_header [OF empty(1)] empty(2)
  show ?thesis by (simp add: EmptyProgress_def)
qed

subsection \<open>The percentage\<close>

text \<open>
  C4.  After every history of a new instance, a snapshot whose percentage is known has a
  known duration that is strictly positive.  And whenever a chunk has an elapsed-time match
  that passes the \<^verbatim>\<open>isNaN\<close> guard and the duration is known and positive, processing the
  chunk sets \<^verbatim>\<open>timeInSeconds\<close> to the matched time and \<^verbatim>\<open>percent\<close> to
  \<^verbatim>\<open>timeInSeconds / duration * 100\<close>.
\<close>

theorem percent_invariant:
  "(percent (progress (run acts (new_FFMPEG a ep))) \<noteq> None \<longrightarrow>
      (\<exists>d. duration (progress (run acts (new_FFMPEG a ep))) = Some (Num d) \<and> 0 < d))
   \<and> (str_match data re_time = Some m \<and> hms_seconds m = Some t
        \<and> duration (progress (onStderrData data s)) = Some (Num d) \<and> 0 < d \<longrightarrow>
        timeInSeconds (progress (onStderrData data s)) = Some t
        \<and> percent (progress (onStderrData data s)) = Some (num_mul (num_div t (Num d)) (Num 100)))"
proof -
  have "percent_ok (progress (run acts (new_FFMPEG a ep)))"
    by (rule percent_ok_run) (simp add: new_FFMPEG_def percent_ok_Empty)
  then have inv: "percent (progress (run acts (new_FFMPEG a ep))) \<noteq> None \<longrightarrow>
      (\<exists>d. duration (progress (run acts (new_FFMPEG a ep))) = Some (Num d) \<and> 0 < d)"
    by (auto simp add: percent_ok_def duration_positive_def split: option.splits
        elim: num_gt.elims)
  have upd: "timeInSeconds (progress (onStderrData data s)) = Some t
        \<and> percent (progress (onStderrData data s)) = Some (num_mul (num_div t (Num d)) (Num 100))"
    if m: "str_match data re_time = Some m" and t: "hms_seconds m = Some t"
      and d: "duration (progress (onStderrData data s)) = Some (Num d)" and pos: "0 < d"
  proof -
    let ?p = "extract_duration data (progress s)"
    have known: "duration ?p = Some (Num d)"
      using d by (simp add: onStderrData_def Let_def emit_def track_progress_duration
          split: if_splits)
    let ?q = "track_size data (track_quality data (track_fps data (track_frame data ?p)))"
    have dq: "duration ?q = Some (Num d)"
      using known by (simp add: track_duration)
    have "timeInSeconds (track_time data ?q) = Some t
        \<and> percent (track_time data ?q) = Some (num_mul (num_div t (Num d)) (Num 100))"
      using m t dq pos by (simp add: track_time_def Let_def duration_positive_def)
    then show ?thesis
      using known by (simp add: onStderrData_def Let_def emit_def track_progress_def
          track_after_time)
  qed
  from inv upd show ?thesis by blast
qed

theorem percent_invariant_witness:
  "percent (progress (run example_history (new_FFMPEG [] None))) = Some (Num 50)
   \<and> (\<exists>d. duration (progress (run example_history (new_FFMPEG [] None))) = Some (Num d) \<and> 0 < d)
   \<and> (\<exists>m. str_match status_chunk re_time = Some m \<and> hms_seconds m = Some (Num 45.25))
   \<and> duration (progress (onStderrData status_chunk
         (run [Start Spawned, Deliver 0 (StderrData header_chunk)] (new_FFMPEG [] None))))
       = Some (Num 90.5)
   \<and> timeInSeconds (progress (onStderrData status_chunk
         (run [Start Spawned, Deliver 0 (StderrData header_chunk)] (new_FFMPEG [] None))))
       = Some (Num 45.25)
   \<and> percent (progress (onStderrData status_chunk
         (run [Start Spawned, Deliver 0 (StderrData header_chunk)] (new_FFMPEG [] None))))
       = Some (Num 50)"
proof -
  let ?s = "run [Start Spawned, Deliver 0 (StderrData header_chunk)] (new_FFMPEG [] None)"
  obtain m where m: "str_match status_chunk re_time = Some m"
    "hms_seconds m = Some (Num 45.25)"
    using status_time_match by blast
  have known: "progress ?s = EmptyProgress\<lparr>duration := Some (Num 90.5)\<rparr>"
    using progress_after_header [of "snd (start Spawned (new_FFMPEG [] None))"]
    by (simp add: start_def new_FFMPEG_def processing_def Let_def)
  then have d: "duration (progress (onStderrData status_chunk ?s)) = Some (Num 90.5)"
    by (simp add: onStderrData_duration_known)
  note inst = percent_invariant [of example_history "[]" None status_chunk m "Num 45.25" ?s "90.5"]
  from inst example_history_progress
  have first: "\<exists>d. duration (progress (run example_history (new_FFMPEG [] None))) = Some (Num d)
      \<and> 0 < d"
    by simp
  from inst m d
  have second: "timeInSeconds (progress (onStderrData status_chunk ?s)) = Some (Num 45.25)
      \<and> percent (progress (onStderrData status_chunk ?s)) = Some (Num 50)"
    by simp
  from first second m d example_history_progress show ?thesis by auto
qed

subsection \<open>The duration\<close>

text \<open>
  C5.  Once the duration is known, no sequence of events and \<^verbatim>\<open>stop\<close> calls of the same run
  changes it.  And at any point of an instance's history where the duration is unknown,
  processing a chunk that matches the duration pattern and none of the seven other patterns
  gives the snapshot whose duration is hours * 3600 + minutes * 60 + seconds, for the numbers
  parsed from the three captures, and whose other fields are all unknown.
\<close>

theorem duration_once:
  "(list_all (\<lambda>a. \<not> is_Start a) acts \<and> duration (progress s) = Some d \<longrightarrow>
      duration (progress (run acts s)) = Some d)
   \<and> (duration (progress (run before (new_FFMPEG a ep))) = None
        \<and> str_match data re_duration = Some m
        \<and> str_match data re_frame = None \<and> str_match data re_fps = None
        \<and> str_match data re_q = None \<and> str_match data re_size = None
        \<and> str_match data re_time = None \<and> str_match data re_bitrate = None
        \<and> str_match data re_speed = None \<longrightarrow>
        (\<exists>hours minutes seconds.
           parseInt (m 1) = Num hours \<and> parseInt (m 2) = Num minutes
           \<and> parseFloat (m 3) = Num seconds
           \<and> progress (onStderrData data (run before (new_FFMPEG a ep))) =
               EmptyProgress\<lparr>duration := Some (Num (hours * 3600 + minutes * 60 + seconds))\<rparr>))"
proof -
  have fixed: "duration (progress (run acts s)) = Some d"
    if "list_all (\<lambda>a. \<not> is_Start a) acts" "duration (progress s) = Some d"
    using that by (rule run_duration_known)
  let ?s0 = "run before (new_FFMPEG a ep)"
  have found: "\<exists>hours minutes seconds.
           parseInt (m 1) = Num hours \<and> parseInt (m 2) = Num minutes
           \<and> parseFloat (m 3) = Num seconds
           \<and> progress (onStderrData data ?s0) =
               EmptyProgress\<lparr>duration := Some (Num (hours * 3600 + minutes * 60 + seconds))\<rparr>"
    if unknown: "duration (progress ?s0) = None" and m: "str_match data re_duration = Some m"
      and none: "str_match data re_frame = None" "str_match data re_fps = None"
        "str_match data re_q = None" "str_match data re_size = None"
        "str_match data re_time = None" "str_match data re_bitrate = None"
        "str_match data re_speed = None"
  proof -
    from unknown have empty: "progress ?s0 = EmptyProgress"
      by (rule unknown_duration_all_unknown)
    from hms_seconds_match [OF m [unfolded re_duration_def]] obtain h mi sec
      where p: "parseInt (m 1) = Num h" "parseInt (m 2) = Num mi" "parseFloat (m 3) = Num sec"
        and v: "hms_seconds m = Some (Num (h * 3600 + mi * 60 + sec))"
      by blast
    have "extract_duration data (progress ?s0) =
        EmptyProgress\<lparr>duration := Some (Num (h * 3600 + mi * 60 + sec))\<rparr>"
      using empty m v by (simp add: extract_duration_def EmptyProgress_def)
    then have "progress (onStderrData data ?s0) =
        EmptyProgress\<lparr>duration := Some (Num (h * 3600 + mi * 60 + sec))\<rparr>"
      by (simp add: onStderrData_def Let_def emit_def track_progress_no_match [OF none])
    with p show ?thesis by blast
  qed
  from fixed found show ?thesis by blast
qed

theorem duration_once_witness:
  "duration (progress (run [Start Spawned] (new_FFMPEG [] None))) = None
   \<and> progress (onStderrData header_chunk (run [Start Spawned] (new_FFMPEG [] None))) =
       EmptyProgress\<lparr>duration := Some (Num 90.5)\<rparr>
   \<and> list_all (\<lambda>a. \<not> is_Start a) [Deliver 0 (StderrData header_chunk), Stop True None]
   \<and> duration (progress (run example_history (new_FFMPEG [] None))) = Some (Num 90.5)
   \<and> duration (progress (run [Deliver 0 (StderrData header_chunk), Stop True None]
        (run example_history (new_FFMPEG [] None)))) = Some (Num 90.5)"
proof -
  obtain m where m: "str_match header_chunk re_duration = Some m" "parseInt (m 1) = Num 0"
    "parseInt (m 2) = Num 1" "parseFloat (m 3) = Num 30.5"
    using header_match by blast
  have unknown: "duration (progress (run [Start Spawned] (new_FFMPEG [] None))) = None"
    by (simp add: start_def new_FFMPEG_def processing_def Let_def EmptyProgress_def)
  have acts: "list_all (\<lambda>a. \<not> is_Start a) [Deliver 0 (StderrData header_chunk), Stop True None]"
    by simp
  have d: "duration (progress (run example_history (new_FFMPEG [] None))) = Some (Num 90.5)"
    by (simp add: example_history_progress)
  note inst = duration_once [of "[Deliver 0 (StderrData header_chunk), Stop True None]"
      "run example_history (new_FFMPEG [] None)" "Num 90.5" "[Start Spawned]" "[]" None
      header_chunk m]
  from inst acts d
  have fixed: "duration (progress (run [Deliver 0 (StderrData header_chunk), Stop True None]
        (run example_history (new_FFMPEG [] None)))) = Some (Num 90.5)"
    by blast
  from inst unknown m(1) header_no_fields obtain hours minutes seconds
    where p: "parseInt (m 1) = Num hours" "parseInt (m 2) = Num minutes"
      "parseFloat (m 3) = Num seconds"
      and r: "progress (onStderrData header_chunk (run [Start Spawned] (new_FFMPEG [] None))) =
        EmptyProgress\<lparr>duration := Some (Num (hours * 3600 + minutes * 60 + seconds))\<rparr>"
    by blast
  from p m have "hours = 0" "minutes = 1" "seconds = 30.5" by simp_all
  with r have "progress (onStderrData header_chunk (run [Start Spawned] (new_FFMPEG [] None))) =
     EmptyProgress\<lparr>duration := Some (Num 90.5)\<rparr>"
    by simp
  with fixed acts d unknown show ?thesis by blast
qed

subsection \<open>Captures that are not numerals\<close>

text \<open>
  C3.  The claim that a captured text which does not parse as a number leaves its field at the
  previous value does not hold for \<^verbatim>\<open>fps\<close>: the pattern's class \<^verbatim>\<open>[\d\.]+\<close> captures a lone
  dot, \<^verbatim>\<open>parseFloat\<close> gives \<^verbatim>\<open>NaN\<close> for it, and the assignment has no \<^verbatim>\<open>isNaN\<close> guard (the
  duration and the elapsed time have one).  With the duration known and \<^verbatim>\<open>fps\<close> at 30, the
  chunk \<^verbatim>\<open>fps=. q=1\<close> sets \<^verbatim>\<open>fps\<close> to \<^verbatim>\<open>NaN\<close>.
\<close>

theorem fps_stores_NaN:
  "fps (progress (run example_history (new_FFMPEG [] None))) = Some (Num 30)
   \<and> fps (progress (run (example_history @ [Deliver 0 (StderrData broken_chunk)])
          (new_FFMPEG [] None))) = Some NaN"
proof -
  let ?s = "run example_history (new_FFMPEG [] None)"
  have dl: "length (children ?s) = 1"
    by (simp add: example_history_def start_def new_FFMPEG_def processing_def Let_def
        on_stderr_frame)
  have known: "duration (progress ?s) = Some (Num 90.5)"
    by (simp add: example_history_progress)
  have "fps (track_progress broken_chunk (progress ?s)) = Some NaN"
    by (simp add: example_history_progress broken_chunk_def track_progress_def track_frame_def
        track_fps_def track_quality_def track_size_def track_time_def track_bitrate_def
        track_speed_def eval_defs)
  then have "fps (progress (on_stderr broken_chunk ?s)) = Some NaN"
    using known
    by (simp add: on_stderr_def onStderrData_def Let_def emit_def buffer_stderr_frame
        extract_duration_known)
  then show ?thesis
    using dl by (simp add: run_append example_history_progress)
qed

end
